theory Spec2Isabelle
  imports Main "HOL-Library.Word"
begin

unbundle bit_operations_syntax

section \<open>The integer stack character device (int_stack.c)\<close>

text \<open>
  The kernel module keeps one global \<^verbatim>\<open>struct stack\<close> and exposes it through the file
  operations \<^verbatim>\<open>stack_read\<close> (pop), \<^verbatim>\<open>stack_write\<close> (push) and \<^verbatim>\<open>stack_ioctl\<close>
  (set size). The character device itself is created by \<^verbatim>\<open>usb_key_probe\<close> and removed by
  \<^verbatim>\<open>usb_key_disconnect\<close>.

  The model is sequential: a call runs from its entry to its return, so the mutex
  \<^verbatim>\<open>lock\<close> of the struct has no field here. What a call receives from outside the
  module (the user buffer, the answer of the allocator, the answers of the device
  registry) is an argument of the modelled function.
\<close>

subsection \<open>Machine types and error codes\<close>

text \<open>
  A C \<^verbatim>\<open>int\<close> is a 32-bit word read in two's complement: comparisons of \<^verbatim>\<open>top\<close>,
  \<^verbatim>\<open>size\<close> and \<^verbatim>\<open>new_size\<close> are the signed ones, and \<^verbatim>\<open>++\<close> and \<^verbatim>\<open>--\<close> wrap.
\<close>

type_synonym c_int = "32 word"

text \<open>\<^verbatim>\<open>sizeof(int)\<close>, in bytes.\<close>

definition sizeof_int :: nat where
  "sizeof_int = 4"

text \<open>
  The negative return values of the module. \<open>Kernel_error c\<close> is the return value \<open>c\<close>
  that another kernel subsystem handed back and that the module passes on unchanged.
\<close>

datatype error = EINVAL | EFAULT | ERANGE | ENOTTY | ENOMEM | Kernel_error int

text \<open>A return value: \<open>Inl E\<close> is \<^verbatim>\<open>-E\<close>, \<open>Inr n\<close> is the non-negative value \<open>n\<close>.\<close>

type_synonym 'a result = "error + 'a"

text \<open>
  \<^verbatim>\<open>#define IOCTL_SET_SIZE _IOW('s', 1, int)\<close>. The macro \<^verbatim>\<open>_IOW\<close> comes from the kernel's
  ioctl header: direction (write = 1) in bits 30-31, the argument's size in bits 16-29,
  the type character in bits 8-15 and the number in bits 0-7.
\<close>

definition IOW :: "nat \<Rightarrow> nat \<Rightarrow> nat \<Rightarrow> 32 word" where
  "IOW ty nr sz = push_bit 30 1 OR push_bit 16 (of_nat sz) OR push_bit 8 (of_nat ty) OR of_nat nr"

definition IOCTL_SET_SIZE :: "32 word" where
  "IOCTL_SET_SIZE = IOW 115 1 sizeof_int"

subsection \<open>The stack structure\<close>

text \<open>
  \<^verbatim>\<open>struct stack { int *data; int top; int size; struct mutex lock; }\<close>.
  The fields carry the prefix \<open>stack_\<close> (as in \<^verbatim>\<open>stack->top\<close>), since \<open>top\<close> and
  \<open>size\<close> are constants of HOL. \<open>stack_data\<close> is \<open>None\<close> for the \<^verbatim>\<open>NULL\<close> pointer and
  otherwise the allocated block, one list element per \<^verbatim>\<open>int\<close> slot.
\<close>

record stack =
  stack_data :: "c_int list option"
  stack_top :: c_int
  stack_size :: c_int

text \<open>
  Reading and writing \<^verbatim>\<open>data[i]\<close>. An access through \<^verbatim>\<open>NULL\<close> or outside the block
  is undefined in C; the model answers \<open>None\<close> there.
\<close>

definition load :: "c_int list option \<Rightarrow> c_int \<Rightarrow> c_int option" where
  "load d i =
     (case d of
        None \<Rightarrow> None
      | Some buf \<Rightarrow>
          if 0 \<le> sint i \<and> nat (sint i) < length buf then Some (buf ! nat (sint i)) else None)"

definition store :: "c_int list option \<Rightarrow> c_int \<Rightarrow> c_int \<Rightarrow> c_int list option" where
  "store d i v =
     (case d of
        None \<Rightarrow> None
      | Some buf \<Rightarrow>
          if 0 \<le> sint i \<and> nat (sint i) < length buf then Some (buf[nat (sint i) := v]) else None)"

text \<open>
  \<^verbatim>\<open>kmalloc(new_size * sizeof(int), GFP_KERNEL)\<close>. The product is computed in
  \<^verbatim>\<open>size_t\<close> (64 bits) after the conversion of \<^verbatim>\<open>new_size\<close>. The allocator's answer is
  \<open>None\<close> for \<^verbatim>\<open>NULL\<close>, or \<open>Some g\<close> for a block whose slot \<open>i\<close> holds the not
  initialised value \<open>g i\<close>.
\<close>

definition size_t_of_int :: "c_int \<Rightarrow> nat" where
  "size_t_of_int n = nat (sint n mod 2 ^ 64)"

definition alloc_bytes :: "c_int \<Rightarrow> nat" where
  "alloc_bytes new_size = (size_t_of_int new_size * sizeof_int) mod 2 ^ 64"

definition kmalloc :: "(nat \<Rightarrow> c_int) option \<Rightarrow> nat \<Rightarrow> c_int list option" where
  "kmalloc answer bytes =
     (case answer of
        None \<Rightarrow> None
      | Some g \<Rightarrow> Some (map g [0..<bytes div sizeof_int]))"

text \<open>
  \<^verbatim>\<open>memcpy(dst, src, n * sizeof(int))\<close> on blocks of \<^verbatim>\<open>int\<close> slots. A negative \<open>n\<close>
  converts to a huge \<^verbatim>\<open>size_t\<close>, so it runs out of both blocks like any \<open>n\<close> beyond
  their lengths: undefined, \<open>None\<close>.
\<close>

definition memcpy :: "c_int list \<Rightarrow> c_int list \<Rightarrow> c_int \<Rightarrow> c_int list option" where
  "memcpy dst src n =
     (if 0 \<le> sint n \<and> nat (sint n) \<le> length src \<and> nat (sint n) \<le> length dst
      then Some (take (nat (sint n)) src @ drop (nat (sint n)) dst)
      else None)"

subsection \<open>Module initialisation\<close>

text \<open>
  \<^verbatim>\<open>stack_init\<close>: allocates the struct, sets \<^verbatim>\<open>data = NULL\<close>, \<^verbatim>\<open>size = 0\<close>,
  \<^verbatim>\<open>top = 0\<close> and registers the USB driver. The arguments are whether the allocation of
  the struct succeeds and the value \<^verbatim>\<open>usb_register\<close> returns.
\<close>

definition stack_init :: "bool \<Rightarrow> int \<Rightarrow> stack result" where
  "stack_init alloc_ok usb_result =
     (if \<not> alloc_ok then Inl ENOMEM
      else
        let s = \<lparr>stack_data = None, stack_top = 0, stack_size = 0\<rparr>
        in if usb_result \<noteq> 0 then Inl (Kernel_error usb_result) else Inr s)"

subsection \<open>The file operations\<close>

text \<open>
  \<^verbatim>\<open>stack_read\<close> (pop). \<open>count\<close> is the requested byte count and \<open>user_ok\<close> says
  whether \<^verbatim>\<open>copy_to_user\<close> can write the caller's buffer. The result is the return
  value, the value that reached the caller's buffer (if any) and the stack afterwards.
\<close>

definition stack_read ::
  "stack \<Rightarrow> nat \<Rightarrow> bool \<Rightarrow> (nat result \<times> c_int option \<times> stack) option" where
  "stack_read s count user_ok =
     (if count \<noteq> sizeof_int then Some (Inl EINVAL, None, s)
      else if stack_top s = 0 then Some (Inr 0, None, s)
      else
        let s' = s\<lparr>stack_top := stack_top s - 1\<rparr>
        in (case load (stack_data s') (stack_top s') of
              None \<Rightarrow> None
            | Some v \<Rightarrow>
                if \<not> user_ok then Some (Inl EFAULT, None, s')
                else Some (Inr sizeof_int, Some v, s')))"

text \<open>
  \<^verbatim>\<open>stack_write\<close> (push). \<open>user\<close> is what \<^verbatim>\<open>copy_from_user\<close> finds in the caller's
  buffer: \<open>None\<close> when the copy faults.
\<close>

definition stack_write :: "stack \<Rightarrow> nat \<Rightarrow> c_int option \<Rightarrow> (nat result \<times> stack) option" where
  "stack_write s count user =
     (if count \<noteq> sizeof_int then Some (Inl EINVAL, s)
      else case user of
        None \<Rightarrow> Some (Inl EFAULT, s)
      | Some v \<Rightarrow>
          if stack_size s \<le>s stack_top s then Some (Inl ERANGE, s)
          else (case store (stack_data s) (stack_top s) v of
                  None \<Rightarrow> None
                | Some d \<Rightarrow>
                    Some (Inr sizeof_int,
                          s\<lparr>stack_data := Some d, stack_top := stack_top s + 1\<rparr>)))"

text \<open>
  \<^verbatim>\<open>stack_ioctl\<close> (set size). \<open>arg\<close> is the \<^verbatim>\<open>int\<close> that \<^verbatim>\<open>copy_from_user\<close> reads at
  the address passed as argument (\<open>None\<close> when it faults) and \<open>answer\<close> is the
  allocator's answer to the one \<^verbatim>\<open>kmalloc\<close> call. The copy from the old block (and its
  \<^verbatim>\<open>kfree\<close>) happens only when there is an old block; \<^verbatim>\<open>top\<close> is lowered to the new
  size when it lies above it.
\<close>

definition stack_ioctl ::
  "stack \<Rightarrow> 32 word \<Rightarrow> c_int option \<Rightarrow> (nat \<Rightarrow> c_int) option \<Rightarrow> (nat result \<times> stack) option" where
  "stack_ioctl s cmd arg answer =
     (if cmd \<noteq> IOCTL_SET_SIZE then Some (Inl ENOTTY, s)
      else case arg of
        None \<Rightarrow> Some (Inl EFAULT, s)
      | Some new_size \<Rightarrow>
          if new_size \<le>s 0 then Some (Inl EINVAL, s)
          else (case kmalloc answer (alloc_bytes new_size) of
            None \<Rightarrow> Some (Inl ENOMEM, s)
          | Some new_data \<Rightarrow>
              (case (case stack_data s of
                       None \<Rightarrow> Some new_data
                     | Some old \<Rightarrow>
                         let elements_to_copy =
                               (if stack_top s <s new_size then stack_top s else new_size)
                         in memcpy new_data old elements_to_copy) of
                 None \<Rightarrow> None
               | Some d \<Rightarrow>
                   Some (Inr 0,
                         \<lparr>stack_data = Some d,
                          stack_top = (if new_size <s stack_top s then new_size else stack_top s),
                          stack_size = new_size\<rparr>))))"

subsection \<open>Capacity, length and elements\<close>

definition capacity :: "stack \<Rightarrow> nat" where
  "capacity s = nat (sint (stack_size s))"

definition height :: "stack \<Rightarrow> nat" where
  "height s = nat (sint (stack_top s))"

text \<open>The stored elements, bottom first: the first \<^verbatim>\<open>top\<close> slots of the block.\<close>

definition elements :: "stack \<Rightarrow> c_int list" where
  "elements s = (case stack_data s of None \<Rightarrow> [] | Some buf \<Rightarrow> take (height s) buf)"

text \<open>
  The states the module can be in: \<^verbatim>\<open>0 <= top <= size\<close>, and the block has \<^verbatim>\<open>size\<close>
  slots (no block yet while \<^verbatim>\<open>size\<close> is 0).
\<close>

definition stack_inv :: "stack \<Rightarrow> bool" where
  "stack_inv s =
     (0 \<le> sint (stack_top s) \<and> sint (stack_top s) \<le> sint (stack_size s) \<and>
      (case stack_data s of
         None \<Rightarrow> stack_size s = 0
       | Some buf \<Rightarrow> length buf = capacity s))"

subsection \<open>Sequences of calls\<close>

text \<open>
  What a client can do with the open device: any of the three file operations, with any
  arguments. \<open>run\<close> performs a list of calls one after the other; it is \<open>None\<close> when one
  of them leaves defined behaviour.
\<close>

datatype call =
    Read nat bool
  | Write nat "c_int option"
  | Ioctl "32 word" "c_int option" "(nat \<Rightarrow> c_int) option"

fun exec :: "stack \<Rightarrow> call \<Rightarrow> stack option" where
  "exec s (Read count user_ok) = map_option (\<lambda>(r, out, s'). s') (stack_read s count user_ok)"
| "exec s (Write count user) = map_option snd (stack_write s count user)"
| "exec s (Ioctl cmd arg answer) = map_option snd (stack_ioctl s cmd arg answer)"

fun run :: "stack \<Rightarrow> call list \<Rightarrow> stack option" where
  "run s [] = Some s"
| "run s (c # cs) = (case exec s c of None \<Rightarrow> None | Some s' \<Rightarrow> run s' cs)"

subsection \<open>The device endpoint\<close>

text \<open>
  The globals of the module: \<^verbatim>\<open>stack\<close> (here \<open>the_stack\<close>, the struct it points to),
  \<^verbatim>\<open>major_number\<close>, \<^verbatim>\<open>stack_class\<close> and \<^verbatim>\<open>stack_device\<close>. A kernel pointer is
  \<^verbatim>\<open>NULL\<close>, an error code wrapped by \<^verbatim>\<open>ERR_PTR\<close>, or an object.
\<close>

datatype kptr = NULL | ERR_PTR int | Object nat

definition IS_ERR :: "kptr \<Rightarrow> bool" where
  "IS_ERR p = (case p of ERR_PTR e \<Rightarrow> True | _ \<Rightarrow> False)"

definition PTR_ERR :: "kptr \<Rightarrow> int" where
  "PTR_ERR p = (case p of ERR_PTR e \<Rightarrow> e | NULL \<Rightarrow> 0 | Object a \<Rightarrow> int a)"

record module =
  the_stack :: stack
  major_number :: int
  stack_class :: kptr
  stack_device :: kptr

text \<open>
  The calls into the device registry that a callback makes, in order. A device is named
  by its class and its major number (\<^verbatim>\<open>MKDEV(major_number, 0)\<close>). The \<^verbatim>\<open>printk\<close> lines
  of the callbacks are left out.
\<close>

datatype kcall =
    Register_chrdev
  | Unregister_chrdev int
  | Class_create
  | Class_destroy kptr
  | Device_create kptr int
  | Device_destroy kptr int

text \<open>
  \<^verbatim>\<open>usb_key_probe\<close>, called when the key is inserted. \<open>reg\<close>, \<open>cls\<close> and \<open>dev\<close> are what
  \<^verbatim>\<open>register_chrdev\<close>, \<^verbatim>\<open>class_create\<close> and \<^verbatim>\<open>device_create\<close> return. The result is
  the return value, the globals afterwards and the registry calls made.
\<close>

definition usb_key_probe ::
  "int \<Rightarrow> kptr \<Rightarrow> kptr \<Rightarrow> module \<Rightarrow> nat result \<times> module \<times> kcall list" where
  "usb_key_probe reg cls dev m =
     (let m1 = m\<lparr>major_number := reg\<rparr>
      in if reg < 0 then (Inl (Kernel_error reg), m1, [Register_chrdev])
         else
           let m2 = m1\<lparr>stack_class := cls\<rparr>
           in if IS_ERR cls
              then (Inl (Kernel_error (PTR_ERR cls)), m2,
                    [Register_chrdev, Class_create, Unregister_chrdev reg])
              else
                let m3 = m2\<lparr>stack_device := dev\<rparr>
                in if IS_ERR dev
                   then (Inl (Kernel_error (PTR_ERR dev)), m3,
                         [Register_chrdev, Class_create, Device_create cls reg,
                          Class_destroy cls, Unregister_chrdev reg])
                   else (Inr 0, m3, [Register_chrdev, Class_create, Device_create cls reg]))"

text \<open>\<^verbatim>\<open>usb_key_disconnect\<close>, called when the key is removed.\<close>

definition usb_key_disconnect :: "module \<Rightarrow> module \<times> kcall list" where
  "usb_key_disconnect m =
     (m, [Device_destroy (stack_class m) (major_number m),
          Class_destroy (stack_class m),
          Unregister_chrdev (major_number m)])"

section \<open>Arithmetic of the counters\<close>

lemma sint_range: "- 2147483648 \<le> sint (t::c_int) \<and> sint t < 2147483648"
  using sint_ge [of t] sint_lt [of t] by simp

lemma sint_succ: "sint (t::c_int) < sint (sz::c_int) \<Longrightarrow> sint (t + 1) = sint t + 1"
proof -
  assume a: "sint t < sint sz"
  have "sint (t + 1) = signed_take_bit 31 (sint t + 1)"
    by (simp add: sint_word_ariths)
  also have "\<dots> = sint t + 1"
    using a sint_range [of t] sint_range [of sz] by (simp add: signed_take_bit_int_eq_self)
  finally show ?thesis .
qed

lemma sint_pred: "0 < sint (t::c_int) \<Longrightarrow> sint (t - 1) = sint t - 1"
proof -
  assume a: "0 < sint t"
  have "sint (t - 1) = signed_take_bit 31 (sint t - 1)"
    by (simp add: sint_word_ariths)
  also have "\<dots> = sint t - 1"
    using a sint_range [of t] by (simp add: signed_take_bit_int_eq_self)
  finally show ?thesis .
qed

lemma sint_pos: "0 \<le> sint (t::c_int) \<Longrightarrow> t \<noteq> 0 \<Longrightarrow> 0 < sint t"
  by (metis order_le_less sint_0 signed_word_eqI)

lemma alloc_slots: "0 < sint n \<Longrightarrow> alloc_bytes n div sizeof_int = nat (sint n)"
proof -
  assume a: "0 < sint n"
  have u: "sint n < 2147483648" using sint_range [of n] by simp
  then have "sint n mod 2 ^ 64 = sint n" using a by simp
  then have s: "size_t_of_int n = nat (sint n)" by (simp add: size_t_of_int_def)
  have "nat (sint n) * 4 < 2 ^ 64" using u a by simp
  then show ?thesis by (simp add: alloc_bytes_def s sizeof_int_def)
qed

text \<open>Under the invariant the length of the element sequence is \<^verbatim>\<open>top\<close>.\<close>

lemma length_elements: "stack_inv s \<Longrightarrow> length (elements s) = height s"
  by (auto simp: stack_inv_def elements_def height_def capacity_def split: option.splits)

lemma inv_block:
  assumes "stack_inv s" "stack_top s \<noteq> 0"
  shows "\<exists>buf. stack_data s = Some buf \<and> length buf = capacity s \<and> 0 < height s \<and> height s \<le> capacity s"
proof -
  from assms have p: "0 < sint (stack_top s)" by (simp add: stack_inv_def sint_pos)
  with assms(1) have "stack_size s \<noteq> 0" by (auto simp: stack_inv_def)
  with assms(1) p show ?thesis
    by (auto simp: stack_inv_def height_def capacity_def split: option.splits)
qed

lemma sint_zero: "(sint (t::c_int) = 0) = (t = 0)"
  by (metis sint_0 signed_word_eqI)

lemma height_zero: "stack_inv s \<Longrightarrow> (height s = 0) = (stack_top s = 0)"
  using sint_zero [of "stack_top s"] by (auto simp: stack_inv_def height_def)

text \<open>What \<^verbatim>\<open>stack_read\<close> does on a stack that is not empty.\<close>

lemma stack_read_pop:
  assumes "stack_inv s" "stack_top s \<noteq> 0"
  shows "\<exists>buf. stack_data s = Some buf \<and>
           stack_read s sizeof_int user_ok =
             Some (if user_ok then Inr sizeof_int else Inl EFAULT,
                   if user_ok then Some (buf ! (height s - 1)) else None,
                   s\<lparr>stack_top := stack_top s - 1\<rparr>) \<and>
           sint (stack_top s - 1) = sint (stack_top s) - 1"
proof -
  from inv_block [OF assms] obtain buf where
    b: "stack_data s = Some buf" "length buf = capacity s" "0 < height s" "height s \<le> capacity s"
    by blast
  from assms have p: "0 < sint (stack_top s)" by (simp add: stack_inv_def sint_pos)
  then have d: "sint (stack_top s - 1) = sint (stack_top s) - 1" by (rule sint_pred)
  have n: "nat (sint (stack_top s) - 1) = height s - 1" by (simp add: height_def)
  have "load (Some buf) (stack_top s - 1) = Some (buf ! (height s - 1))"
    using b p by (simp add: load_def d n)
  then show ?thesis using assms(2) b(1) d by (simp add: stack_read_def)
qed

lemma stack_read_inv:
  assumes "stack_inv s" "stack_top s \<noteq> 0"
  shows "stack_inv (s\<lparr>stack_top := stack_top s - 1\<rparr>)"
proof -
  from assms have p: "0 < sint (stack_top s)" by (simp add: stack_inv_def sint_pos)
  then have d: "sint (stack_top s - 1) = sint (stack_top s) - 1" by (rule sint_pred)
  show ?thesis using assms(1) p by (simp add: stack_inv_def d capacity_def split: option.splits)
qed

lemma stack_read_elements:
  assumes "stack_inv s" "stack_top s \<noteq> 0" "stack_data s = Some buf"
  shows "elements (s\<lparr>stack_top := stack_top s - 1\<rparr>) = butlast (elements s) \<and>
         last (elements s) = buf ! (height s - 1) \<and> elements s \<noteq> []"
proof -
  from inv_block [OF assms(1,2)] assms(3) have
    b: "length buf = capacity s" "0 < height s" "height s \<le> capacity s"
    by auto
  from assms have p: "0 < sint (stack_top s)" by (simp add: stack_inv_def sint_pos)
  then have d: "sint (stack_top s - 1) = sint (stack_top s) - 1" by (rule sint_pred)
  have n: "nat (sint (stack_top s) - 1) = height s - 1" by (simp add: height_def)
  have e: "elements s = take (height s) buf" by (simp add: elements_def assms(3))
  have l: "length (take (height s) buf) = height s" using b by simp
  have 1: "elements (s\<lparr>stack_top := stack_top s - 1\<rparr>) = take (height s - 1) buf"
    by (simp add: elements_def assms(3) height_def d n [unfolded height_def])
  have 2: "butlast (take (height s) buf) = take (height s - 1) buf"
    using b by (simp add: butlast_take)
  have 4: "take (height s) buf \<noteq> []" using b by auto
  have "last (take (height s) buf) = take (height s) buf ! (length (take (height s) buf) - 1)"
    using 4 by (rule last_conv_nth)
  also have "\<dots> = take (height s) buf ! (height s - 1)" by (simp only: l)
  also have "\<dots> = buf ! (height s - 1)" using b by simp
  finally have 3: "last (take (height s) buf) = buf ! (height s - 1)" .
  show ?thesis using 1 2 3 4 e by simp
qed

text \<open>What \<^verbatim>\<open>stack_write\<close> does on a stack that is not full.\<close>

lemma stack_write_push:
  assumes "stack_inv s" "sint (stack_top s) < sint (stack_size s)"
  shows "\<exists>buf. stack_data s = Some buf \<and> length buf = capacity s \<and> height s < capacity s \<and>
           stack_write s sizeof_int (Some v) =
             Some (Inr sizeof_int,
                   s\<lparr>stack_data := Some (buf[height s := v]), stack_top := stack_top s + 1\<rparr>) \<and>
           sint (stack_top s + 1) = sint (stack_top s) + 1"
proof -
  from assms have z: "stack_size s \<noteq> 0" by (auto simp: stack_inv_def)
  with assms(1) obtain buf where b: "stack_data s = Some buf" "length buf = capacity s"
    by (auto simp: stack_inv_def split: option.splits)
  from assms have h: "height s < capacity s" "0 \<le> sint (stack_top s)"
    by (auto simp: stack_inv_def height_def capacity_def)
  have st: "store (Some buf) (stack_top s) v = Some (buf[height s := v])"
    using h b by (simp add: store_def height_def)
  have i: "sint (stack_top s + 1) = sint (stack_top s) + 1"
    using assms(2) by (rule sint_succ)
  have "\<not> stack_size s \<le>s stack_top s" using assms(2) by (simp add: word_sle_eq)
  then show ?thesis using b h st i by (simp add: stack_write_def)
qed

lemma stack_write_inv:
  assumes "stack_inv s" "sint (stack_top s) < sint (stack_size s)" "stack_data s = Some buf"
  shows "stack_inv (s\<lparr>stack_data := Some (buf[height s := v]), stack_top := stack_top s + 1\<rparr>)"
proof -
  have i: "sint (stack_top s + 1) = sint (stack_top s) + 1"
    using assms(2) by (rule sint_succ)
  show ?thesis using assms by (simp add: stack_inv_def i capacity_def)
qed

lemma stack_write_elements:
  assumes "stack_inv s" "sint (stack_top s) < sint (stack_size s)" "stack_data s = Some buf"
  shows "elements (s\<lparr>stack_data := Some (buf[height s := v]), stack_top := stack_top s + 1\<rparr>)
           = elements s @ [v]"
proof -
  have i: "sint (stack_top s + 1) = sint (stack_top s) + 1"
    using assms(2) by (rule sint_succ)
  from assms have h: "height s < length buf" "0 \<le> sint (stack_top s)"
    by (auto simp: stack_inv_def height_def capacity_def)
  have n: "nat (sint (stack_top s) + 1) = Suc (height s)" using h(2) by (simp add: height_def)
  have "take (Suc (height s)) (buf[height s := v]) = take (height s) buf @ [v]"
    using h(1) by (simp add: take_Suc_conv_app_nth)
  then show ?thesis by (simp add: elements_def assms(3) height_def i n [unfolded height_def])
qed

text \<open>What \<^verbatim>\<open>stack_ioctl\<close> does when the size is positive and the allocation succeeds.\<close>

lemma stack_ioctl_resize:
  assumes "stack_inv s" "0 < sint n"
  shows "\<exists>s'. stack_ioctl s IOCTL_SET_SIZE (Some n) (Some g) = Some (Inr 0, s') \<and>
           stack_inv s' \<and> stack_size s' = n \<and>
           height s' = min (height s) (nat (sint n)) \<and>
           elements s' = take (nat (sint n)) (elements s)"
proof -
  define r where "r =
     \<lparr>stack_data =
        Some (case stack_data s of
                None \<Rightarrow> map g [0..<nat (sint n)]
              | Some old \<Rightarrow>
                  take (min (height s) (nat (sint n))) old @
                  drop (min (height s) (nat (sint n))) (map g [0..<nat (sint n)])),
      stack_top = (if n <s stack_top s then n else stack_top s),
      stack_size = n\<rparr>"
  have pos: "\<not> n \<le>s 0" using assms(2) by (simp add: word_sle_eq)
  have km: "kmalloc (Some g) (alloc_bytes n) = Some (map g [0..<nat (sint n)])"
    by (simp add: kmalloc_def alloc_slots [OF assms(2)])
  have run: "stack_ioctl s IOCTL_SET_SIZE (Some n) (Some g) = Some (Inr 0, r)"
  proof (cases "stack_data s")
    case None
    then show ?thesis using pos km by (simp add: stack_ioctl_def r_def)
  next
    case (Some old)
    let ?e = "if stack_top s <s n then stack_top s else n"
    from assms(1) Some have i: "0 \<le> sint (stack_top s)" "height s \<le> length old"
      by (auto simp: stack_inv_def height_def capacity_def)
    have ne: "nat (sint ?e) = min (height s) (nat (sint n))"
      using i(1) assms(2) by (auto simp: word_sless_alt height_def min_def)
    have "0 \<le> sint ?e" using i(1) assms(2) by auto
    moreover have "nat (sint ?e) \<le> length old" using i(2) unfolding ne by simp
    moreover have "nat (sint ?e) \<le> length (map g [0..<nat (sint n)])" unfolding ne by simp
    ultimately have "memcpy (map g [0..<nat (sint n)]) old ?e =
        Some (take (min (height s) (nat (sint n))) old @
              drop (min (height s) (nat (sint n))) (map g [0..<nat (sint n)]))"
      unfolding memcpy_def ne by simp
    then show ?thesis using pos km Some by (simp add: stack_ioctl_def r_def)
  qed
  have top: "height r = min (height s) (nat (sint n)) \<and>
             0 \<le> sint (stack_top r) \<and> sint (stack_top r) \<le> sint n"
    using assms by (auto simp: r_def height_def stack_inv_def word_sless_alt)
  have z: "stack_size r = n" by (simp add: r_def)
  have inv: "stack_inv r"
  proof -
    obtain buf where d: "stack_data r = Some buf" by (simp add: r_def)
    then have l: "length buf = nat (sint n)"
      using assms
      by (auto simp: r_def stack_inv_def height_def capacity_def split: option.splits)
    have c: "capacity r = nat (sint n)" by (simp add: capacity_def r_def)
    show ?thesis using top l c by (simp add: stack_inv_def d z)
  qed
  have el: "elements r = take (nat (sint n)) (elements s)"
  proof (cases "stack_data s")
    case None
    with assms(1) have "height s = 0" by (auto simp: stack_inv_def height_def)
    then have "height r = 0" using top by simp
    then show ?thesis using None by (simp add: elements_def r_def)
  next
    case (Some old)
    from assms(1) Some have i: "height s \<le> length old"
      by (auto simp: stack_inv_def height_def capacity_def)
    have h: "height r = min (height s) (nat (sint n))" using top by simp
    have d: "stack_data r =
            Some (take (min (height s) (nat (sint n))) old @
                  drop (min (height s) (nat (sint n))) (map g [0..<nat (sint n)]))"
      using Some by (simp add: r_def)
    have "elements r =
            take (min (height s) (nat (sint n)))
              (take (min (height s) (nat (sint n))) old @
               drop (min (height s) (nat (sint n))) (map g [0..<nat (sint n)]))"
      unfolding elements_def d h by simp
    also have "\<dots> = take (min (height s) (nat (sint n))) old" using i by simp
    also have "\<dots> = take (nat (sint n)) (take (height s) old)" by (simp add: min.commute)
    finally show ?thesis using Some by (simp add: elements_def)
  qed
  show ?thesis using run inv z top el by blast
qed

text \<open>Every call keeps the invariant, and none leaves defined behaviour.\<close>

lemma stack_read_keeps_inv:
  assumes "stack_inv s"
  shows "\<exists>r out s'. stack_read s count user_ok = Some (r, out, s') \<and> stack_inv s'"
proof (cases "count \<noteq> sizeof_int \<or> stack_top s = 0")
  case True
  then show ?thesis using assms by (auto simp: stack_read_def)
next
  case False
  then have c: "count = sizeof_int" and t: "stack_top s \<noteq> 0" by auto
  show ?thesis
    using stack_read_pop [OF assms t, of user_ok] stack_read_inv [OF assms t] c by auto
qed

lemma stack_write_keeps_inv:
  assumes "stack_inv s"
  shows "\<exists>r s'. stack_write s count user = Some (r, s') \<and> stack_inv s'"
proof (cases "count \<noteq> sizeof_int \<or> user = None \<or> stack_size s \<le>s stack_top s")
  case True
  then show ?thesis using assms by (auto simp: stack_write_def split: option.splits)
next
  case False
  then obtain v where c: "count = sizeof_int" and u: "user = Some v"
    and t: "sint (stack_top s) < sint (stack_size s)"
    by (auto simp: word_sle_eq)
  from stack_write_push [OF assms t, of v] obtain buf where
    b: "stack_data s = Some buf"
       "stack_write s sizeof_int (Some v) =
          Some (Inr sizeof_int,
                s\<lparr>stack_data := Some (buf[height s := v]), stack_top := stack_top s + 1\<rparr>)"
    by blast
  show ?thesis using b(2) stack_write_inv [OF assms t b(1), of v] c u by simp
qed

lemma stack_ioctl_keeps_inv:
  assumes "stack_inv s"
  shows "\<exists>r s'. stack_ioctl s cmd arg answer = Some (r, s') \<and> stack_inv s'"
proof (cases "cmd = IOCTL_SET_SIZE \<and> (\<exists>n g. arg = Some n \<and> 0 < sint n \<and> answer = Some g)")
  case True
  then obtain n g where "cmd = IOCTL_SET_SIZE" "arg = Some n" "0 < sint n" "answer = Some g"
    by blast
  then show ?thesis using stack_ioctl_resize [OF assms, of n g] by auto
next
  case False
  then have "stack_ioctl s cmd arg answer = Some (Inl ENOTTY, s) \<or>
             stack_ioctl s cmd arg answer = Some (Inl EFAULT, s) \<or>
             stack_ioctl s cmd arg answer = Some (Inl EINVAL, s) \<or>
             stack_ioctl s cmd arg answer = Some (Inl ENOMEM, s)"
    by (cases arg; cases answer) (auto simp: stack_ioctl_def kmalloc_def word_sle_eq)
  then show ?thesis using assms by auto
qed

lemma exec_keeps_inv:
  assumes "stack_inv s"
  shows "\<exists>s'. exec s c = Some s' \<and> stack_inv s'"
proof (cases c)
  case (Read count user_ok)
  then show ?thesis using stack_read_keeps_inv [OF assms, of count user_ok] by auto
next
  case (Write count user)
  then show ?thesis using stack_write_keeps_inv [OF assms, of count user] by auto
next
  case (Ioctl cmd arg answer)
  then show ?thesis using stack_ioctl_keeps_inv [OF assms, of cmd arg answer] by auto
qed

lemma run_keeps_inv: "stack_inv s \<Longrightarrow> \<exists>s'. run s cs = Some s' \<and> stack_inv s'"
proof (induction cs arbitrary: s)
  case Nil
  then show ?case by simp
next
  case (Cons c cs)
  from exec_keeps_inv [OF Cons.prems, of c] obtain s1 where
    e: "exec s c = Some s1" and i: "stack_inv s1" by blast
  from Cons.IH [OF i] show ?case using e by simp
qed

lemma inv_bounds:
  "stack_inv s \<Longrightarrow>
     0 \<le> sint (stack_top s) \<and> sint (stack_top s) \<le> sint (stack_size s) \<and>
     length (elements s) \<le> capacity s"
  by (auto simp: stack_inv_def length_elements height_def capacity_def)

section \<open>The invariant\<close>

text \<open>
  Claim C1. \<^verbatim>\<open>stack_init\<close> leaves a stack of capacity 0 without elements, and after
  every call of every sequence of reads, writes and control requests issued from there
  (whatever their arguments, failing ones included) \<^verbatim>\<open>0 <= top <= size\<close> holds, so the
  number of elements is at most the capacity. No call leaves defined behaviour.
\<close>

theorem invariant_after_every_call:
  "\<exists>s0. stack_init True 0 = Inr s0 \<and> capacity s0 = 0 \<and> elements s0 = [] \<and>
     (\<forall>calls k. \<exists>s. run s0 (take k calls) = Some s \<and>
        0 \<le> sint (stack_top s) \<and> sint (stack_top s) \<le> sint (stack_size s) \<and>
        length (elements s) \<le> capacity s)"
proof -
  let ?s0 = "\<lparr>stack_data = None, stack_top = 0, stack_size = 0\<rparr>"
  have i: "stack_inv ?s0" by (simp add: stack_inv_def)
  have "\<exists>s. run ?s0 (take k calls) = Some s \<and>
        0 \<le> sint (stack_top s) \<and> sint (stack_top s) \<le> sint (stack_size s) \<and>
        length (elements s) \<le> capacity s" for calls k
    using run_keeps_inv [OF i, of "take k calls"] inv_bounds by blast
  then show ?thesis by (simp add: stack_init_def capacity_def elements_def)
qed

section \<open>Pop\<close>

text \<open>
  Claim C2. On a stack without elements a read of \<^verbatim>\<open>sizeof(int)\<close> bytes returns 0 bytes,
  which is not an error, and leaves the stack as it was. On a stack with elements it hands
  the last element of the sequence (the value pushed most recently and not yet popped) to
  the caller and returns \<^verbatim>\<open>sizeof(int)\<close>; afterwards the length is one less, the
  capacity is the same and the elements below the old top are the same (the block itself
  is not touched).
\<close>

theorem pop_lifo:
  assumes "stack_inv s"
  shows "(length (elements s) = 0 \<longrightarrow>
            stack_read s sizeof_int user_ok = Some (Inr 0, None, s)) \<and>
         (length (elements s) \<noteq> 0 \<longrightarrow>
            (\<exists>s'. stack_read s sizeof_int True = Some (Inr sizeof_int, Some (last (elements s)), s') \<and>
                  length (elements s') + 1 = length (elements s) \<and>
                  capacity s' = capacity s \<and>
                  elements s' = butlast (elements s) \<and>
                  stack_data s' = stack_data s \<and>
                  stack_inv s'))"
proof (cases "stack_top s = 0")
  case True
  then have "stack_read s sizeof_int user_ok = Some (Inr 0, None, s)"
    by (simp add: stack_read_def)
  moreover have "length (elements s) = 0"
    using True assms by (simp add: length_elements height_zero)
  ultimately show ?thesis by simp
next
  case False
  let ?s' = "s\<lparr>stack_top := stack_top s - 1\<rparr>"
  from stack_read_pop [OF assms False, of True] obtain buf where
    b: "stack_data s = Some buf"
       "stack_read s sizeof_int True = Some (Inr sizeof_int, Some (buf ! (height s - 1)), ?s')"
    by auto
  note e = stack_read_elements [OF assms False b(1)]
  have i: "stack_inv ?s'" by (rule stack_read_inv [OF assms False])
  have r: "stack_read s sizeof_int True = Some (Inr sizeof_int, Some (last (elements s)), ?s')"
    using b(2) e by simp
  have l: "length (elements ?s') + 1 = length (elements s)" using e by simp
  have c: "capacity ?s' = capacity s" by (simp add: capacity_def)
  have "length (elements s) \<noteq> 0" using e by simp
  then show ?thesis using r l c e i by auto
qed

theorem pop_lifo_witness:
  "stack_inv \<lparr>stack_data = Some [5, 6, 7], stack_top = 2, stack_size = 3\<rparr> \<and>
   length (elements \<lparr>stack_data = Some [5, 6, 7], stack_top = 2, stack_size = 3\<rparr>) \<noteq> 0 \<and>
   (\<exists>s'. stack_read \<lparr>stack_data = Some [5, 6, 7], stack_top = 2, stack_size = 3\<rparr> sizeof_int True
           = Some (Inr sizeof_int, Some 6, s') \<and>
         elements s' = [5] \<and> capacity s' = 3) \<and>
   stack_inv \<lparr>stack_data = None, stack_top = 0, stack_size = 0\<rparr> \<and>
   length (elements \<lparr>stack_data = None, stack_top = 0, stack_size = 0\<rparr>) = 0 \<and>
   stack_read \<lparr>stack_data = None, stack_top = 0, stack_size = 0\<rparr> sizeof_int True
     = Some (Inr 0, None, \<lparr>stack_data = None, stack_top = 0, stack_size = 0\<rparr>)"
proof -
  let ?s = "\<lparr>stack_data = Some [5, 6, 7], stack_top = 2, stack_size = 3\<rparr>"
  let ?e = "\<lparr>stack_data = None, stack_top = 0, stack_size = 0\<rparr>"
  have i: "stack_inv ?s" by (simp add: stack_inv_def capacity_def)
  have el: "elements ?s = [5, 6]" by (simp add: elements_def height_def)
  have c: "capacity ?s = 3" by (simp add: capacity_def)
  have j: "stack_inv ?e" by (simp add: stack_inv_def)
  have ee: "elements ?e = []" by (simp add: elements_def)
  show ?thesis
    using i j pop_lifo [OF i, of True] pop_lifo [OF j, of True]
    by (auto simp: el ee c)
qed

section \<open>Push\<close>

text \<open>
  Claim C3. When the length equals the capacity (also for capacity 0, before any size was
  set) a write of the value \<open>v\<close> fails with \<open>ERANGE\<close> and the stack is as before. When
  the length is below the capacity the write succeeds, \<open>v\<close> becomes the last element and
  the length grows by one.
\<close>

theorem push_full_or_append:
  assumes "stack_inv s"
  shows "(length (elements s) = capacity s \<longrightarrow>
            stack_write s sizeof_int (Some v) = Some (Inl ERANGE, s)) \<and>
         (length (elements s) < capacity s \<longrightarrow>
            (\<exists>s'. stack_write s sizeof_int (Some v) = Some (Inr sizeof_int, s') \<and>
                  elements s' = elements s @ [v] \<and>
                  length (elements s') = length (elements s) + 1 \<and>
                  capacity s' = capacity s \<and>
                  stack_inv s'))"
proof (cases "sint (stack_top s) < sint (stack_size s)")
  case True
  from stack_write_push [OF assms True, of v] obtain buf where
    b: "stack_data s = Some buf"
    and w: "stack_write s sizeof_int (Some v) =
          Some (Inr sizeof_int,
                s\<lparr>stack_data := Some (buf[height s := v]), stack_top := stack_top s + 1\<rparr>)"
    by blast
  let ?s' = "s\<lparr>stack_data := Some (buf[height s := v]), stack_top := stack_top s + 1\<rparr>"
  have e: "elements ?s' = elements s @ [v]" by (rule stack_write_elements [OF assms True b])
  have i: "stack_inv ?s'" by (rule stack_write_inv [OF assms True b])
  have c: "capacity ?s' = capacity s" by (simp add: capacity_def)
  have "length (elements s) \<noteq> capacity s"
    using True assms by (auto simp: length_elements height_def capacity_def stack_inv_def)
  then show ?thesis using w e i c by auto
next
  case False
  then have "stack_write s sizeof_int (Some v) = Some (Inl ERANGE, s)"
    by (simp add: stack_write_def word_sle_eq)
  moreover have "\<not> length (elements s) < capacity s"
    using False assms by (auto simp: length_elements height_def capacity_def stack_inv_def)
  ultimately show ?thesis by simp
qed

theorem push_full_or_append_witness:
  "stack_inv \<lparr>stack_data = Some [5, 6, 7], stack_top = 2, stack_size = 3\<rparr> \<and>
   length (elements \<lparr>stack_data = Some [5, 6, 7], stack_top = 2, stack_size = 3\<rparr>)
     < capacity \<lparr>stack_data = Some [5, 6, 7], stack_top = 2, stack_size = 3\<rparr> \<and>
   (\<exists>s'. stack_write \<lparr>stack_data = Some [5, 6, 7], stack_top = 2, stack_size = 3\<rparr> sizeof_int (Some 9)
           = Some (Inr sizeof_int, s') \<and>
         elements s' = [5, 6, 9] \<and> capacity s' = 3) \<and>
   stack_inv \<lparr>stack_data = None, stack_top = 0, stack_size = 0\<rparr> \<and>
   length (elements \<lparr>stack_data = None, stack_top = 0, stack_size = 0\<rparr>)
     = capacity \<lparr>stack_data = None, stack_top = 0, stack_size = 0\<rparr> \<and>
   stack_write \<lparr>stack_data = None, stack_top = 0, stack_size = 0\<rparr> sizeof_int (Some 9)
     = Some (Inl ERANGE, \<lparr>stack_data = None, stack_top = 0, stack_size = 0\<rparr>)"
proof -
  let ?s = "\<lparr>stack_data = Some [5, 6, 7], stack_top = 2, stack_size = 3\<rparr>"
  let ?e = "\<lparr>stack_data = None, stack_top = 0, stack_size = 0\<rparr>"
  have i: "stack_inv ?s" by (simp add: stack_inv_def capacity_def)
  have el: "elements ?s = [5, 6]" by (simp add: elements_def height_def)
  have c: "capacity ?s = 3" by (simp add: capacity_def)
  have j: "stack_inv ?e" by (simp add: stack_inv_def)
  have ee: "elements ?e = []" by (simp add: elements_def)
  have ce: "capacity ?e = 0" by (simp add: capacity_def)
  show ?thesis
    using i j push_full_or_append [OF i, of 9] push_full_or_append [OF j, of 9]
    by (auto simp: el ee c ce)
qed

section \<open>Resize\<close>

text \<open>
  Claim C4. For a size \<open>n > 0\<close> and an allocation that succeeds, the control request
  returns 0, the capacity becomes \<open>n\<close>, and the elements are the bottom \<open>min k n\<close> of the
  \<open>k\<close> elements before, in their order; what lay above the new capacity is dropped
  without an error.
\<close>

theorem resize_keeps_bottom:
  assumes "stack_inv s" "0 <s n"
  shows "\<exists>s'. stack_ioctl s IOCTL_SET_SIZE (Some n) (Some g) = Some (Inr 0, s') \<and>
           capacity s' = nat (sint n) \<and>
           elements s' = take (nat (sint n)) (elements s) \<and>
           length (elements s') = min (length (elements s)) (nat (sint n)) \<and>
           stack_inv s'"
proof -
  from assms(2) have p: "0 < sint n" by (simp add: word_sless_alt)
  from stack_ioctl_resize [OF assms(1) p, of g] obtain s' where
    r: "stack_ioctl s IOCTL_SET_SIZE (Some n) (Some g) = Some (Inr 0, s')"
    and i: "stack_inv s'" and z: "stack_size s' = n"
    and e: "elements s' = take (nat (sint n)) (elements s)"
    by blast
  have c: "capacity s' = nat (sint n)" by (simp add: capacity_def z)
  have l: "length (elements s') = min (length (elements s)) (nat (sint n))" by (simp add: e)
  show ?thesis using r c e l i by blast
qed

theorem resize_keeps_bottom_witness:
  "stack_inv \<lparr>stack_data = Some [5, 6, 7], stack_top = 3, stack_size = 3\<rparr> \<and>
   (0 :: c_int) <s 2 \<and>
   (\<exists>s'. stack_ioctl \<lparr>stack_data = Some [5, 6, 7], stack_top = 3, stack_size = 3\<rparr>
            IOCTL_SET_SIZE (Some 2) (Some (\<lambda>i. 0)) = Some (Inr 0, s') \<and>
         capacity s' = 2 \<and> elements s' = [5, 6] \<and> length (elements s') = 2)"
proof -
  let ?s = "\<lparr>stack_data = Some [5, 6, 7], stack_top = 3, stack_size = 3\<rparr>"
  have i: "stack_inv ?s" by (simp add: stack_inv_def capacity_def)
  have p: "(0 :: c_int) <s 2" by (simp add: word_sless_alt)
  have el: "elements ?s = [5, 6, 7]" by (simp add: elements_def height_def)
  show ?thesis
    using i p resize_keeps_bottom [OF i p, of "\<lambda>i. 0"] by (auto simp: el)
qed

text \<open>
  Claim C5. A size \<open>n <= 0\<close> is refused with \<open>EINVAL\<close>, and a failed allocation (for
  \<open>n > 0\<close>) gives \<open>ENOMEM\<close>; in both cases the stack is exactly as before. More
  generally, whenever the control request returns an error the stack is unchanged.
\<close>

theorem failed_resize_no_change:
  "(n \<le>s 0 \<longrightarrow> stack_ioctl s IOCTL_SET_SIZE (Some n) answer = Some (Inl EINVAL, s)) \<and>
   (0 <s n \<longrightarrow> stack_ioctl s IOCTL_SET_SIZE (Some n) None = Some (Inl ENOMEM, s)) \<and>
   (\<forall>e s'. stack_ioctl s cmd arg answer = Some (Inl e, s') \<longrightarrow> s' = s)"
proof -
  have 1: "n \<le>s 0 \<longrightarrow> stack_ioctl s IOCTL_SET_SIZE (Some n) answer = Some (Inl EINVAL, s)"
    by (simp add: stack_ioctl_def)
  have 2: "0 <s n \<longrightarrow> stack_ioctl s IOCTL_SET_SIZE (Some n) None = Some (Inl ENOMEM, s)"
    by (auto simp: stack_ioctl_def kmalloc_def word_sle_eq word_sless_alt)
  have 3: "\<forall>e s'. stack_ioctl s cmd arg answer = Some (Inl e, s') \<longrightarrow> s' = s"
    by (auto simp: stack_ioctl_def split: if_splits option.splits)
  show ?thesis using 1 2 3 by blast
qed

theorem failed_resize_no_change_witness:
  "(- 1 :: c_int) \<le>s 0 \<and>
   stack_ioctl \<lparr>stack_data = Some [5, 6, 7], stack_top = 2, stack_size = 3\<rparr>
     IOCTL_SET_SIZE (Some (- 1)) (Some (\<lambda>i. 0))
     = Some (Inl EINVAL, \<lparr>stack_data = Some [5, 6, 7], stack_top = 2, stack_size = 3\<rparr>) \<and>
   (0 :: c_int) <s 8 \<and>
   stack_ioctl \<lparr>stack_data = Some [5, 6, 7], stack_top = 2, stack_size = 3\<rparr>
     IOCTL_SET_SIZE (Some 8) None
     = Some (Inl ENOMEM, \<lparr>stack_data = Some [5, 6, 7], stack_top = 2, stack_size = 3\<rparr>)"
proof -
  let ?s = "\<lparr>stack_data = Some [5, 6, 7], stack_top = 2, stack_size = 3\<rparr>"
  have a: "(- 1 :: c_int) \<le>s 0" by (simp add: word_sle_eq)
  have b: "(0 :: c_int) <s 8" by (simp add: word_sless_alt)
  show ?thesis
    using a b
      failed_resize_no_change [of "- 1" ?s "Some (\<lambda>i. 0)" IOCTL_SET_SIZE "Some (- 1)"]
      failed_resize_no_change [of 8 ?s None IOCTL_SET_SIZE "Some 8"]
    by blast
qed

section \<open>Push followed by pop\<close>

text \<open>
  Claim C6. On a stack that is not full, writing \<open>v\<close> and then reading gives \<open>v\<close> back,
  and capacity, length and element sequence are what they were before the write.
\<close>

theorem push_pop_round_trip:
  assumes "stack_inv s" "length (elements s) < capacity s"
  shows "\<exists>s' s''. stack_write s sizeof_int (Some v) = Some (Inr sizeof_int, s') \<and>
           stack_read s' sizeof_int True = Some (Inr sizeof_int, Some v, s'') \<and>
           capacity s'' = capacity s \<and>
           length (elements s'') = length (elements s) \<and>
           elements s'' = elements s \<and>
           stack_size s'' = stack_size s \<and> stack_top s'' = stack_top s"
proof -
  from assms have t: "sint (stack_top s) < sint (stack_size s)"
    by (auto simp: length_elements height_def capacity_def stack_inv_def)
  from stack_write_push [OF assms(1) t, of v] obtain buf where
    b: "stack_data s = Some buf" and lb: "length buf = capacity s" and hc: "height s < capacity s"
    and w: "stack_write s sizeof_int (Some v) =
          Some (Inr sizeof_int,
                s\<lparr>stack_data := Some (buf[height s := v]), stack_top := stack_top s + 1\<rparr>)"
    and su: "sint (stack_top s + 1) = sint (stack_top s) + 1"
    by blast
  let ?s' = "s\<lparr>stack_data := Some (buf[height s := v]), stack_top := stack_top s + 1\<rparr>"
  let ?s'' = "?s'\<lparr>stack_top := stack_top ?s' - 1\<rparr>"
  have i': "stack_inv ?s'" by (rule stack_write_inv [OF assms(1) t b])
  have nz: "stack_top ?s' \<noteq> 0"
    using su assms(1) sint_zero [of "stack_top s + 1"] by (auto simp: stack_inv_def)
  have nn: "0 \<le> sint (stack_top s)" using assms(1) by (simp add: stack_inv_def)
  have h': "height ?s' = height s + 1"
    using su nn by (simp add: height_def nat_add_distrib)
  from stack_read_pop [OF i' nz, of True] have
    r: "stack_read ?s' sizeof_int True =
          Some (Inr sizeof_int, Some ((buf[height s := v]) ! (height ?s' - 1)), ?s'')"
    by simp
  have val: "(buf[height s := v]) ! (height ?s' - 1) = v"
    using hc lb by (simp add: h')
  have top: "stack_top ?s'' = stack_top s" by simp
  have sz: "stack_size ?s'' = stack_size s" by simp
  have el: "elements ?s'' = elements s"
    using hc lb by (simp add: elements_def height_def b)
  have "stack_read ?s' sizeof_int True = Some (Inr sizeof_int, Some v, ?s'')"
    using r val by simp
  moreover have "capacity ?s'' = capacity s" by (simp add: capacity_def)
  ultimately show ?thesis using w top sz el by (metis (no_types))
qed

theorem push_pop_round_trip_witness:
  "stack_inv \<lparr>stack_data = Some [5, 6, 7], stack_top = 2, stack_size = 3\<rparr> \<and>
   length (elements \<lparr>stack_data = Some [5, 6, 7], stack_top = 2, stack_size = 3\<rparr>)
     < capacity \<lparr>stack_data = Some [5, 6, 7], stack_top = 2, stack_size = 3\<rparr> \<and>
   (\<exists>s' s''.
      stack_write \<lparr>stack_data = Some [5, 6, 7], stack_top = 2, stack_size = 3\<rparr> sizeof_int (Some 9)
        = Some (Inr sizeof_int, s') \<and>
      stack_read s' sizeof_int True = Some (Inr sizeof_int, Some 9, s'') \<and>
      capacity s'' = 3 \<and> elements s'' = [5, 6] \<and> stack_top s'' = 2)"
proof -
  let ?s = "\<lparr>stack_data = Some [5, 6, 7], stack_top = 2, stack_size = 3\<rparr>"
  have i: "stack_inv ?s" by (simp add: stack_inv_def capacity_def)
  have el: "elements ?s = [5, 6]" by (simp add: elements_def height_def)
  have c: "capacity ?s = 3" by (simp add: capacity_def)
  have l: "length (elements ?s) < capacity ?s" by (simp add: el c)
  show ?thesis
    using i l push_pop_round_trip [OF i l, of 9] by (auto simp: el c)
qed

section \<open>A read whose transfer fails\<close>

text \<open>
  Claim C10. \<^verbatim>\<open>stack_read\<close> decrements \<^verbatim>\<open>top\<close> before \<^verbatim>\<open>copy_to_user\<close> runs. On a
  stack with elements, a read whose transfer to the caller's buffer fails returns
  \<open>EFAULT\<close> and delivers nothing, yet the top element is gone: the stack afterwards is
  the one a successful read leaves, and differs from the stack before.
\<close>

theorem failed_transfer_still_pops:
  assumes "stack_inv s" "length (elements s) \<noteq> 0"
  shows "\<exists>s'. stack_read s sizeof_int False = Some (Inl EFAULT, None, s') \<and>
           length (elements s') + 1 = length (elements s) \<and>
           elements s' = butlast (elements s) \<and>
           capacity s' = capacity s \<and>
           s' \<noteq> s \<and>
           (\<exists>r out. stack_read s sizeof_int True = Some (r, out, s'))"
proof -
  from assms have nz: "stack_top s \<noteq> 0" by (simp add: length_elements height_zero)
  let ?s' = "s\<lparr>stack_top := stack_top s - 1\<rparr>"
  from stack_read_pop [OF assms(1) nz, of False] obtain buf where
    b: "stack_data s = Some buf"
    and r: "stack_read s sizeof_int False = Some (Inl EFAULT, None, ?s')"
    by auto
  from stack_read_pop [OF assms(1) nz, of True] have
    r': "\<exists>r out. stack_read s sizeof_int True = Some (r, out, ?s')"
    by auto
  note e = stack_read_elements [OF assms(1) nz b]
  have l: "length (elements ?s') + 1 = length (elements s)" using e by simp
  have c: "capacity ?s' = capacity s" by (simp add: capacity_def)
  have d: "?s' \<noteq> s"
  proof
    assume "?s' = s"
    then have "stack_top ?s' = stack_top s" by simp
    then show False by simp
  qed
  show ?thesis using r l e c d r' by blast
qed

theorem failed_transfer_still_pops_witness:
  "stack_inv \<lparr>stack_data = Some [5, 6, 7], stack_top = 2, stack_size = 3\<rparr> \<and>
   length (elements \<lparr>stack_data = Some [5, 6, 7], stack_top = 2, stack_size = 3\<rparr>) \<noteq> 0 \<and>
   (\<exists>s'. stack_read \<lparr>stack_data = Some [5, 6, 7], stack_top = 2, stack_size = 3\<rparr> sizeof_int False
           = Some (Inl EFAULT, None, s') \<and>
         elements s' = [5] \<and>
         s' \<noteq> \<lparr>stack_data = Some [5, 6, 7], stack_top = 2, stack_size = 3\<rparr>)"
proof -
  let ?s = "\<lparr>stack_data = Some [5, 6, 7], stack_top = 2, stack_size = 3\<rparr>"
  have i: "stack_inv ?s" by (simp add: stack_inv_def capacity_def)
  have el: "elements ?s = [5, 6]" by (simp add: elements_def height_def)
  have l: "length (elements ?s) \<noteq> 0" by (simp add: el)
  show ?thesis
    using i l failed_transfer_still_pops [OF i l] by (auto simp: el)
qed

section \<open>Removing and inserting the key\<close>

text \<open>
  Claim C7. \<^verbatim>\<open>usb_key_disconnect\<close> followed by \<^verbatim>\<open>usb_key_probe\<close> leaves the stack
  (block, \<^verbatim>\<open>top\<close>, \<^verbatim>\<open>size\<close>, hence capacity, elements and length) as it was, whatever
  the device registry answers. Neither callback writes the stack, and neither reads it:
  with another stack in place both return the same value, make the same registry calls
  and leave the same other globals.
\<close>

theorem detach_attach_keeps_stack:
  "the_stack (fst (usb_key_disconnect m)) = the_stack m \<and>
   the_stack (fst (snd (usb_key_probe reg cls dev m))) = the_stack m \<and>
   the_stack (fst (snd (usb_key_probe reg cls dev (fst (usb_key_disconnect m))))) = the_stack m \<and>
   usb_key_disconnect (m\<lparr>the_stack := s\<rparr>) =
     ((fst (usb_key_disconnect m))\<lparr>the_stack := s\<rparr>, snd (usb_key_disconnect m)) \<and>
   usb_key_probe reg cls dev (m\<lparr>the_stack := s\<rparr>) =
     (fst (usb_key_probe reg cls dev m),
      (fst (snd (usb_key_probe reg cls dev m)))\<lparr>the_stack := s\<rparr>,
      snd (snd (usb_key_probe reg cls dev m)))"
  by (simp add: usb_key_disconnect_def usb_key_probe_def Let_def)

section \<open>Rejected requests\<close>

text \<open>
  Claim C8. A read or a write whose byte count is not \<^verbatim>\<open>sizeof(int)\<close> = 4 fails with
  \<open>EINVAL\<close>, and a control request whose command is not \<open>IOCTL_SET_SIZE\<close> fails with
  \<open>ENOTTY\<close>; the stack is the same afterwards and nothing reaches the caller's buffer.
\<close>

theorem bad_request_rejected:
  "sizeof_int = 4 \<and>
   (count \<noteq> 4 \<longrightarrow>
      stack_read s count user_ok = Some (Inl EINVAL, None, s) \<and>
      stack_write s count user = Some (Inl EINVAL, s)) \<and>
   (cmd \<noteq> IOCTL_SET_SIZE \<longrightarrow> stack_ioctl s cmd arg answer = Some (Inl ENOTTY, s))"
  by (simp add: stack_read_def stack_write_def stack_ioctl_def sizeof_int_def)

theorem bad_request_rejected_witness:
  "(3::nat) \<noteq> 4 \<and> (7 :: 32 word) \<noteq> IOCTL_SET_SIZE \<and>
   stack_read \<lparr>stack_data = Some [5, 6], stack_top = 1, stack_size = 2\<rparr> 3 True
     = Some (Inl EINVAL, None, \<lparr>stack_data = Some [5, 6], stack_top = 1, stack_size = 2\<rparr>) \<and>
   stack_write \<lparr>stack_data = Some [5, 6], stack_top = 1, stack_size = 2\<rparr> 3 (Some 9)
     = Some (Inl EINVAL, \<lparr>stack_data = Some [5, 6], stack_top = 1, stack_size = 2\<rparr>) \<and>
   stack_ioctl \<lparr>stack_data = Some [5, 6], stack_top = 1, stack_size = 2\<rparr> 7 (Some 1) None
     = Some (Inl ENOTTY, \<lparr>stack_data = Some [5, 6], stack_top = 1, stack_size = 2\<rparr>)"
proof -
  have c: "(3::nat) \<noteq> 4" by simp
  have o: "(7 :: 32 word) \<noteq> IOCTL_SET_SIZE"
    by (simp add: IOCTL_SET_SIZE_def IOW_def sizeof_int_def)
  show ?thesis
    using c o
      bad_request_rejected [of 3 "\<lparr>stack_data = Some [5, 6], stack_top = 1, stack_size = 2\<rparr>"
        True "Some 9" 7 "Some 1" None]
    by blast
qed

end
